theory Spec2Isabelle
  imports Complex_Main
begin

section \<open>CollisionBody.cpp: collision shapes attached to a body\<close>

text \<open>
  A shallow embedding of \<^verbatim>\<open>src/body/CollisionBody.cpp\<close>. The body owns two
  intrusive singly linked lists (proxy shapes, contact manifold elements) whose nodes
  live in pooled memory of the world. Pointers are addresses, \<open>NULL\<close> is \<open>None\<close>,
  and the pooled objects are kept in explicit stores (address to object), because the
  removal code compares and rewrites pointers.

  The collaborators of the body (shape store, pooled allocator, collision detection /
  broad-phase) are not part of this source file. Every call the body makes on them is
  recorded, in program order, in the list \<open>calls\<close> of the world. What a collaborator
  returns (the shape pointer of \<open>createCollisionShape\<close>, the storage of \<open>allocate\<close>) is
  an extra argument of the operation that receives it. The geometry functions
  (\<open>Transform::operator*\<close>, \<open>CollisionShape::computeAABB\<close>,
  \<open>ProxyShape::testPointInside\<close>) are parameters as well.

  Dereferencing \<open>NULL\<close> or a pointer to released storage, and a failing \<open>assert\<close>
  (assertions enabled, i.e. \<open>NDEBUG\<close> not defined), are results of type \<open>error\<close>.
  The pointer-chasing loops are partial functions: \<open>None\<close> stands for a loop that
  does not return.
\<close>

subsection \<open>Data\<close>

type_synonym addr = nat

datatype error = NullPointerDereference | InvalidPointer | AssertionFailure

text \<open>The enumeration of body types; the constructor uses \<open>DYNAMIC\<close>.\<close>

datatype BodyType = STATIC | KINEMATIC | DYNAMIC

text \<open>
  The proxy shape that links a body with a collision shape of the world:
  \<open>'h\<close> is the type of shape pointers handed out by the world, \<open>'t\<close> the type of
  transforms. \<open>mBody\<close> is the back pointer to the body, kept as the body's id.
\<close>

record ('h, 't) ProxyShape =
  mBody :: nat
  mCollisionShape :: 'h
  mLocalToBodyTransform :: 't
  mMass :: real
  mNext :: "addr option"

text \<open>
  Modelled from the spec: the constructor of \<open>ProxyShape\<close> is defined in
  \<^verbatim>\<open>ProxyShape.cpp\<close>, which is not part of the sources. The spec describes the
  record as holding the back-reference to its body, the shared shape, the
  local-to-body transform, the mass factor and an intrusive next link; a freshly
  constructed proxy is linked to nothing (\<open>addCollisionShape\<close> leaves \<open>mNext\<close> alone
  when the list is empty).
\<close>

definition ProxyShape_new :: "nat \<Rightarrow> 'h \<Rightarrow> 't \<Rightarrow> real \<Rightarrow> ('h, 't) ProxyShape" where
  "ProxyShape_new body shape transform mass =
     \<lparr>mBody = body, mCollisionShape = shape, mLocalToBodyTransform = transform,
      mMass = mass, mNext = None\<rparr>"

text \<open>An element of the contact manifold list; its content is opaque here.\<close>

record ContactManifoldListElement =
  contactManifold :: nat
  cm_next :: "addr option"

datatype objsize = SizeofProxyShape | SizeofContactManifoldListElement

text \<open>
  The calls on the collaborators: \<open>'d\<close> is the type of the shape passed in by the
  user, \<open>'h\<close> the shape pointer of the world, \<open>'a\<close> the type of bounding boxes.
\<close>

datatype ('d, 'h, 'a) call =
    CreateCollisionShape 'd 'h
  | Allocate objsize addr
  | AddProxyCollisionShape addr 'a
  | RemoveProxyCollisionShape addr
  | RemoveCollisionShape 'h
  | DestructProxyShape addr
  | DestructContactManifoldListElement addr
  | Release addr objsize
  | UpdateProxyCollisionShape addr 'a
  | AskForBroadPhaseCollisionCheck addr

record ('d, 'h, 't, 'a) CollisionWorld =
  proxyShapes :: "addr \<rightharpoonup> ('h, 't) ProxyShape"
  manifoldElements :: "addr \<rightharpoonup> ContactManifoldListElement"
  calls :: "('d, 'h, 'a) call list"

text \<open>
  The fields of the body. The declaration of \<open>mNbCollisionShapes\<close> is in
  \<^verbatim>\<open>CollisionBody.h\<close> (not part of the sources); the code asserts that it is not
  negative, so it is a signed counter here. Its range is not bounded:
  overflow of the counter is not modelled.
\<close>

record 't CollisionBody =
  mID :: nat
  mType :: BodyType
  mTransform :: 't
  mOldTransform :: 't
  mInterpolationFactor :: real
  mIsCollisionEnabled :: bool
  mProxyCollisionShapes :: "addr option"
  mNbCollisionShapes :: int
  mContactManifoldsList :: "addr option"

definition record_call ::
  "('d, 'h, 'a) call \<Rightarrow> ('d, 'h, 't, 'a) CollisionWorld \<Rightarrow> ('d, 'h, 't, 'a) CollisionWorld" where
  "record_call c w = w\<lparr>calls := calls w @ [c]\<rparr>"

subsection \<open>Constructor\<close>

definition CollisionBody_new :: "'t \<Rightarrow> nat \<Rightarrow> 't CollisionBody" where
  "CollisionBody_new transform ident =
     \<lparr>mID = ident, mType = DYNAMIC, mTransform = transform, mOldTransform = transform,
      mInterpolationFactor = 0, mIsCollisionEnabled = True,
      mProxyCollisionShapes = None, mNbCollisionShapes = 0,
      mContactManifoldsList = None\<rparr>"

subsection \<open>addCollisionShape\<close>

text \<open>
  \<open>newCollisionShape\<close> is what \<open>mWorld.createCollisionShape\<close> returned and \<open>storage\<close>
  what \<open>mWorld.mMemoryAllocator.allocate\<close> returned. The result is the returned
  pointer with the new body and world.
\<close>

definition addCollisionShape ::
  "('t \<Rightarrow> 't \<Rightarrow> 't) \<Rightarrow> ('h \<Rightarrow> 't \<Rightarrow> 'a) \<Rightarrow> 'd \<Rightarrow> 't \<Rightarrow> 'h \<Rightarrow> addr \<Rightarrow>
   't CollisionBody \<Rightarrow> ('d, 'h, 't, 'a) CollisionWorld \<Rightarrow>
   addr \<times> 't CollisionBody \<times> ('d, 'h, 't, 'a) CollisionWorld" where
  "addCollisionShape mul computeAABB collisionShape transform newCollisionShape storage b w =
     (let w1 = record_call (CreateCollisionShape collisionShape newCollisionShape) w;
          w2 = record_call (Allocate SizeofProxyShape storage) w1;
          proxyShape = storage;
          constructed = ProxyShape_new (mID b) newCollisionShape transform 1;
          w3 = w2\<lparr>proxyShapes := (proxyShapes w2)(proxyShape \<mapsto> constructed)\<rparr>;
          w4 = (case mProxyCollisionShapes b of
                  None \<Rightarrow> w3
                | Some first \<Rightarrow>
                    w3\<lparr>proxyShapes :=
                         (proxyShapes w3)(proxyShape \<mapsto> constructed\<lparr>mNext := Some first\<rparr>)\<rparr>);
          b1 = b\<lparr>mProxyCollisionShapes := Some proxyShape\<rparr>;
          aabb = computeAABB newCollisionShape (mul (mTransform b1) transform);
          w5 = record_call (AddProxyCollisionShape proxyShape aabb) w4;
          b2 = b1\<lparr>mNbCollisionShapes := mNbCollisionShapes b1 + 1\<rparr>
      in (proxyShape, b2, w5))"

subsection \<open>removeCollisionShape\<close>

text \<open>
  The four calls that destroy one proxy shape: deregistration from the collision
  detection, release of the shape at the world, destructor, release of the storage
  (which also ends the life of the object in the store).
\<close>

definition destroy_proxy ::
  "addr \<Rightarrow> 'h \<Rightarrow> ('d, 'h, 't, 'a) CollisionWorld \<Rightarrow> ('d, 'h, 't, 'a) CollisionWorld" where
  "destroy_proxy p shape w =
     (let w1 = record_call (RemoveProxyCollisionShape p) w;
          w2 = record_call (RemoveCollisionShape shape) w1;
          w3 = record_call (DestructProxyShape p) w2;
          w4 = record_call (Release p SizeofProxyShape) w3
      in w4\<lparr>proxyShapes := (proxyShapes w4)(p := None)\<rparr>)"

text \<open>The \<open>while (current->mNext != NULL)\<close> loop, from a non-null \<open>current\<close>.\<close>

partial_function (option) removeCollisionShape_loop ::
  "addr option \<Rightarrow> addr \<Rightarrow> 't CollisionBody \<Rightarrow> ('d, 'h, 't, 'a) CollisionWorld \<Rightarrow>
   (error + 't CollisionBody \<times> ('d, 'h, 't, 'a) CollisionWorld) option" where
  "removeCollisionShape_loop proxyShape current b w =
     (case proxyShapes w current of
        None \<Rightarrow> Some (Inl InvalidPointer)
      | Some cur \<Rightarrow>
         (case mNext cur of
            None \<Rightarrow>
              (if mNbCollisionShapes b \<ge> 0 then Some (Inr (b, w))
               else Some (Inl AssertionFailure))
          | Some n \<Rightarrow>
              (if Some n = proxyShape then
                 (case proxyShapes w n of
                    None \<Rightarrow> Some (Inl InvalidPointer)
                  | Some elementToRemove \<Rightarrow>
                     (let w1 = w\<lparr>proxyShapes :=
                                  (proxyShapes w)(current \<mapsto> cur\<lparr>mNext := mNext elementToRemove\<rparr>)\<rparr>
                      in (case proxyShapes w1 n of
                            None \<Rightarrow> Some (Inl InvalidPointer)
                          | Some removed \<Rightarrow>
                              Some (Inr (b\<lparr>mNbCollisionShapes := mNbCollisionShapes b - 1\<rparr>,
                                         destroy_proxy n (mCollisionShape removed) w1)))))
               else removeCollisionShape_loop proxyShape n b w)))"

definition removeCollisionShape ::
  "addr option \<Rightarrow> 't CollisionBody \<Rightarrow> ('d, 'h, 't, 'a) CollisionWorld \<Rightarrow>
   (error + 't CollisionBody \<times> ('d, 'h, 't, 'a) CollisionWorld) option" where
  "removeCollisionShape proxyShape b w =
     (let current = mProxyCollisionShapes b in
      if current = proxyShape then
        (case current of
           None \<Rightarrow> Some (Inl NullPointerDereference)
         | Some c \<Rightarrow>
            (case proxyShapes w c of
               None \<Rightarrow> Some (Inl InvalidPointer)
             | Some cur \<Rightarrow>
                 Some (Inr (b\<lparr>mProxyCollisionShapes := mNext cur,
                              mNbCollisionShapes := mNbCollisionShapes b - 1\<rparr>,
                            destroy_proxy c (mCollisionShape cur) w))))
      else
        (case current of
           None \<Rightarrow> Some (Inl NullPointerDereference)
         | Some c \<Rightarrow> removeCollisionShape_loop proxyShape c b w))"

subsection \<open>removeAllCollisionShapes\<close>

partial_function (option) removeAllCollisionShapes_loop ::
  "addr option \<Rightarrow> ('d, 'h, 't, 'a) CollisionWorld \<Rightarrow>
   (error + ('d, 'h, 't, 'a) CollisionWorld) option" where
  "removeAllCollisionShapes_loop current w =
     (case current of
        None \<Rightarrow> Some (Inr w)
      | Some c \<Rightarrow>
         (case proxyShapes w c of
            None \<Rightarrow> Some (Inl InvalidPointer)
          | Some cur \<Rightarrow>
             (let nextElement = mNext cur
              in removeAllCollisionShapes_loop nextElement
                   (destroy_proxy c (mCollisionShape cur) w))))"

definition removeAllCollisionShapes ::
  "'t CollisionBody \<Rightarrow> ('d, 'h, 't, 'a) CollisionWorld \<Rightarrow>
   (error + 't CollisionBody \<times> ('d, 'h, 't, 'a) CollisionWorld) option" where
  "removeAllCollisionShapes b w =
     (case removeAllCollisionShapes_loop (mProxyCollisionShapes b) w of
        None \<Rightarrow> None
      | Some (Inl e) \<Rightarrow> Some (Inl e)
      | Some (Inr w') \<Rightarrow> Some (Inr (b\<lparr>mProxyCollisionShapes := None\<rparr>, w')))"

subsection \<open>Destructor\<close>

text \<open>The body is gone afterwards; what remains is the world.\<close>

definition CollisionBody_destroy ::
  "'t CollisionBody \<Rightarrow> ('d, 'h, 't, 'a) CollisionWorld \<Rightarrow>
   (error + ('d, 'h, 't, 'a) CollisionWorld) option" where
  "CollisionBody_destroy b w =
     (if mContactManifoldsList b \<noteq> None then Some (Inl AssertionFailure)
      else (case removeAllCollisionShapes b w of
              None \<Rightarrow> None
            | Some (Inl e) \<Rightarrow> Some (Inl e)
            | Some (Inr (b', w')) \<Rightarrow> Some (Inr w')))"

subsection \<open>resetContactManifoldsList\<close>

partial_function (option) resetContactManifoldsList_loop ::
  "addr option \<Rightarrow> ('d, 'h, 't, 'a) CollisionWorld \<Rightarrow>
   (error + ('d, 'h, 't, 'a) CollisionWorld) option" where
  "resetContactManifoldsList_loop currentElement w =
     (case currentElement of
        None \<Rightarrow> Some (Inr w)
      | Some c \<Rightarrow>
         (case manifoldElements w c of
            None \<Rightarrow> Some (Inl InvalidPointer)
          | Some cur \<Rightarrow>
             (let nextElement = cm_next cur;
                  w1 = record_call (DestructContactManifoldListElement c) w;
                  w2 = record_call (Release c SizeofContactManifoldListElement) w1;
                  w3 = w2\<lparr>manifoldElements := (manifoldElements w2)(c := None)\<rparr>
              in resetContactManifoldsList_loop nextElement w3)))"

definition resetContactManifoldsList ::
  "'t CollisionBody \<Rightarrow> ('d, 'h, 't, 'a) CollisionWorld \<Rightarrow>
   (error + 't CollisionBody \<times> ('d, 'h, 't, 'a) CollisionWorld) option" where
  "resetContactManifoldsList b w =
     (case resetContactManifoldsList_loop (mContactManifoldsList b) w of
        None \<Rightarrow> None
      | Some (Inl e) \<Rightarrow> Some (Inl e)
      | Some (Inr w') \<Rightarrow> Some (Inr (b\<lparr>mContactManifoldsList := None\<rparr>, w')))"

subsection \<open>updateBroadPhaseState and askForBroadPhaseCollisionCheck\<close>

text \<open>Both methods are \<open>const\<close>: the body is only read, the result is the world.\<close>

partial_function (option) updateBroadPhaseState_loop ::
  "('t \<Rightarrow> 't \<Rightarrow> 't) \<Rightarrow> ('h \<Rightarrow> 't \<Rightarrow> 'a) \<Rightarrow> 't CollisionBody \<Rightarrow> addr option \<Rightarrow>
   ('d, 'h, 't, 'a) CollisionWorld \<Rightarrow> (error + ('d, 'h, 't, 'a) CollisionWorld) option" where
  "updateBroadPhaseState_loop mul computeAABB b shape w =
     (case shape of
        None \<Rightarrow> Some (Inr w)
      | Some p \<Rightarrow>
         (case proxyShapes w p of
            None \<Rightarrow> Some (Inl InvalidPointer)
          | Some cur \<Rightarrow>
             (let aabb = computeAABB (mCollisionShape cur)
                           (mul (mTransform b) (mLocalToBodyTransform cur));
                  w1 = record_call (UpdateProxyCollisionShape p aabb) w
              in (case proxyShapes w1 p of
                    None \<Rightarrow> Some (Inl InvalidPointer)
                  | Some cur1 \<Rightarrow>
                      updateBroadPhaseState_loop mul computeAABB b (mNext cur1) w1))))"

definition updateBroadPhaseState ::
  "('t \<Rightarrow> 't \<Rightarrow> 't) \<Rightarrow> ('h \<Rightarrow> 't \<Rightarrow> 'a) \<Rightarrow> 't CollisionBody \<Rightarrow>
   ('d, 'h, 't, 'a) CollisionWorld \<Rightarrow> (error + ('d, 'h, 't, 'a) CollisionWorld) option" where
  "updateBroadPhaseState mul computeAABB b w =
     updateBroadPhaseState_loop mul computeAABB b (mProxyCollisionShapes b) w"

partial_function (option) askForBroadPhaseCollisionCheck_loop ::
  "addr option \<Rightarrow> ('d, 'h, 't, 'a) CollisionWorld \<Rightarrow>
   (error + ('d, 'h, 't, 'a) CollisionWorld) option" where
  "askForBroadPhaseCollisionCheck_loop shape w =
     (case shape of
        None \<Rightarrow> Some (Inr w)
      | Some p \<Rightarrow>
         (let w1 = record_call (AskForBroadPhaseCollisionCheck p) w
          in (case proxyShapes w1 p of
                None \<Rightarrow> Some (Inl InvalidPointer)
              | Some cur \<Rightarrow> askForBroadPhaseCollisionCheck_loop (mNext cur) w1)))"

definition askForBroadPhaseCollisionCheck ::
  "'t CollisionBody \<Rightarrow> ('d, 'h, 't, 'a) CollisionWorld \<Rightarrow>
   (error + ('d, 'h, 't, 'a) CollisionWorld) option" where
  "askForBroadPhaseCollisionCheck b w =
     askForBroadPhaseCollisionCheck_loop (mProxyCollisionShapes b) w"

subsection \<open>testPointInside\<close>

text \<open>
  \<open>inside\<close> stands for \<open>ProxyShape::testPointInside\<close>, which reads the transform
  of the body and the proxy shape. The method has no effect; to speak about which
  proxy shapes it asks, the result carries the list of the proxies queried, in order.
\<close>

partial_function (option) testPointInside_loop ::
  "('t \<Rightarrow> ('h, 't) ProxyShape \<Rightarrow> 'v \<Rightarrow> bool) \<Rightarrow> 't CollisionBody \<Rightarrow>
   ('d, 'h, 't, 'a) CollisionWorld \<Rightarrow> 'v \<Rightarrow> addr option \<Rightarrow> addr list \<Rightarrow>
   (error + bool \<times> addr list) option" where
  "testPointInside_loop inside b w worldPoint shape queried =
     (case shape of
        None \<Rightarrow> Some (Inr (False, queried))
      | Some p \<Rightarrow>
         (case proxyShapes w p of
            None \<Rightarrow> Some (Inl InvalidPointer)
          | Some cur \<Rightarrow>
             (if inside (mTransform b) cur worldPoint then Some (Inr (True, queried @ [p]))
              else testPointInside_loop inside b w worldPoint (mNext cur) (queried @ [p]))))"

definition testPointInside ::
  "('t \<Rightarrow> ('h, 't) ProxyShape \<Rightarrow> 'v \<Rightarrow> bool) \<Rightarrow> 't CollisionBody \<Rightarrow>
   ('d, 'h, 't, 'a) CollisionWorld \<Rightarrow> 'v \<Rightarrow> (error + bool \<times> addr list) option" where
  "testPointInside inside b w worldPoint =
     testPointInside_loop inside b w worldPoint (mProxyCollisionShapes b) []"

subsection \<open>raycast\<close>

text \<open>
  The two overloads. The one with feedback receives \<open>raycastInfo\<close> by reference;
  its result is the returned value with the content of \<open>raycastInfo\<close> afterwards.
\<close>

definition raycast :: "'r \<Rightarrow> real \<Rightarrow> 't CollisionBody \<Rightarrow> bool" where
  "raycast ray distance b = False"

definition raycast_info :: "'r \<Rightarrow> 'i \<Rightarrow> real \<Rightarrow> 't CollisionBody \<Rightarrow> bool \<times> 'i" where
  "raycast_info ray raycastInfo distance b = (False, raycastInfo)"

subsection \<open>The lists in the store\<close>

text \<open>
  \<open>chain nxt p ps\<close>: following the next pointers \<open>nxt\<close> from \<open>p\<close> visits exactly the
  addresses \<open>ps\<close>, all of them live, and ends at \<open>NULL\<close>.
\<close>

fun chain :: "(addr \<rightharpoonup> addr option) \<Rightarrow> addr option \<Rightarrow> addr list \<Rightarrow> bool" where
  "chain nxt p [] = (p = None)"
| "chain nxt p (a # as) =
     (p = Some a \<and> (case nxt a of None \<Rightarrow> False | Some q \<Rightarrow> chain nxt q as))"

definition proxyNext :: "('d, 'h, 't, 'a) CollisionWorld \<Rightarrow> addr \<rightharpoonup> addr option" where
  "proxyNext w = (\<lambda>a. map_option mNext (proxyShapes w a))"

definition manifoldNext :: "('d, 'h, 't, 'a) CollisionWorld \<Rightarrow> addr \<rightharpoonup> addr option" where
  "manifoldNext w = (\<lambda>a. map_option cm_next (manifoldElements w a))"

definition proxyList :: "('d, 'h, 't, 'a) CollisionWorld \<Rightarrow> addr option \<Rightarrow> addr list \<Rightarrow> bool" where
  "proxyList w p ps = chain (proxyNext w) p ps"

definition manifoldList :: "('d, 'h, 't, 'a) CollisionWorld \<Rightarrow> addr option \<Rightarrow> addr list \<Rightarrow> bool" where
  "manifoldList w p ps = chain (manifoldNext w) p ps"


text \<open>The shape of a live proxy, and the calls that destroy the proxy at \<open>p\<close>.\<close>

definition shapeOf :: "('d, 'h, 't, 'a) CollisionWorld \<Rightarrow> addr \<Rightarrow> 'h" where
  "shapeOf w p = mCollisionShape (the (proxyShapes w p))"

definition removal_calls :: "('d, 'h, 't, 'a) CollisionWorld \<Rightarrow> addr \<Rightarrow> ('d, 'h, 'a) call list" where
  "removal_calls w p =
     [RemoveProxyCollisionShape p, RemoveCollisionShape (shapeOf w p),
      DestructProxyShape p, Release p SizeofProxyShape]"


subsection \<open>The broad-phase registrations\<close>

text \<open>
  Modelled from the spec: the collision detection (broad-phase index) is not part of
  the sources. The spec gives it the operations \<open>addProxy(proxy, aabb)\<close> and
  \<open>removeProxy(proxy)\<close>; the proxies registered after a sequence of calls are those
  added and not removed since.
\<close>

fun registered_after :: "addr set \<Rightarrow> ('d, 'h, 'a) call list \<Rightarrow> addr set" where
  "registered_after R [] = R"
| "registered_after R (AddProxyCollisionShape p aabb # cs) = registered_after (insert p R) cs"
| "registered_after R (RemoveProxyCollisionShape p # cs) = registered_after (R - {p}) cs"
| "registered_after R (c # cs) = registered_after R cs"

definition registered :: "('d, 'h, 'a) call list \<Rightarrow> addr set" where
  "registered cs = registered_after {} cs"

text \<open>The calls that destroy the contact manifold list element at \<open>m\<close>.\<close>

definition manifold_release_calls :: "addr \<Rightarrow> ('d, 'h, 'a) call list" where
  "manifold_release_calls m =
     [DestructContactManifoldListElement m, Release m SizeofContactManifoldListElement]"

subsection \<open>Example states\<close>

text \<open>
  A world without objects and a freshly constructed body. In the examples a transform
  is an integer (composition is addition) and a bounding box is the pair of the shape
  and the composed transform.
\<close>

definition example_world :: "(string, nat, int, nat \<times> int) CollisionWorld" where
  "example_world = \<lparr>proxyShapes = Map.empty, manifoldElements = Map.empty, calls = []\<rparr>"

definition example_body :: "int CollisionBody" where
  "example_body = CollisionBody_new 5 0"


text \<open>The state after attaching two shapes to the fresh body (see \<open>two_shapes_reached\<close>).\<close>

definition two_shapes_world :: "(string, nat, int, nat \<times> int) CollisionWorld" where
  "two_shapes_world =
     \<lparr>proxyShapes =
        [100 \<mapsto> \<lparr>mBody = 0, mCollisionShape = 1, mLocalToBodyTransform = 0, mMass = 1, mNext = None\<rparr>,
         101 \<mapsto> \<lparr>mBody = 0, mCollisionShape = 2, mLocalToBodyTransform = 3, mMass = 1,
                 mNext = Some 100\<rparr>],
      manifoldElements = Map.empty,
      calls =
        [CreateCollisionShape ''box'' 1, Allocate SizeofProxyShape 100,
         AddProxyCollisionShape 100 (1, 5),
         CreateCollisionShape ''sphere'' 2, Allocate SizeofProxyShape 101,
         AddProxyCollisionShape 101 (2, 8)]\<rparr>"

definition two_shapes_body :: "int CollisionBody" where
  "two_shapes_body =
     example_body\<lparr>mProxyCollisionShapes := Some 101, mNbCollisionShapes := 2\<rparr>"

subsection \<open>Sequences of calls, and what the loops are expected to do\<close>

text \<open>
  A sequence of \<open>addCollisionShape\<close> calls; each argument carries the shape, the
  transform, and what the world returned for this call (shape pointer, storage). The
  result is the list of the returned pointers with the final body and world.
\<close>

fun addCollisionShapes ::
  "('t \<Rightarrow> 't \<Rightarrow> 't) \<Rightarrow> ('h \<Rightarrow> 't \<Rightarrow> 'a) \<Rightarrow> ('d \<times> 't \<times> 'h \<times> addr) list \<Rightarrow>
   't CollisionBody \<Rightarrow> ('d, 'h, 't, 'a) CollisionWorld \<Rightarrow>
   addr list \<times> 't CollisionBody \<times> ('d, 'h, 't, 'a) CollisionWorld" where
  "addCollisionShapes mul computeAABB [] b w = ([], b, w)"
| "addCollisionShapes mul computeAABB
     ((collisionShape, transform, newCollisionShape, storage) # rest) b w =
     (case addCollisionShape mul computeAABB collisionShape transform newCollisionShape storage b w of
        (h, b1, w1) \<Rightarrow>
          (case addCollisionShapes mul computeAABB rest b1 w1 of
             (hs, b2, w2) \<Rightarrow> (h # hs, b2, w2)))"

definition storage_of :: "'d \<times> 't \<times> 'h \<times> addr \<Rightarrow> addr" where
  "storage_of arg = snd (snd (snd arg))"

text \<open>
  The local transform of a live proxy, the call \<open>updateBroadPhaseState\<close> makes for
  it, and the answer of \<open>ProxyShape::testPointInside\<close> for it.
\<close>

definition localOf :: "('d, 'h, 't, 'a) CollisionWorld \<Rightarrow> addr \<Rightarrow> 't" where
  "localOf w p = mLocalToBodyTransform (the (proxyShapes w p))"

definition update_call ::
  "('t \<Rightarrow> 't \<Rightarrow> 't) \<Rightarrow> ('h \<Rightarrow> 't \<Rightarrow> 'a) \<Rightarrow> 't CollisionBody \<Rightarrow>
   ('d, 'h, 't, 'a) CollisionWorld \<Rightarrow> addr \<Rightarrow> ('d, 'h, 'a) call" where
  "update_call mul computeAABB b w p =
     UpdateProxyCollisionShape p
       (computeAABB (shapeOf w p) (mul (mTransform b) (localOf w p)))"

definition insideAt ::
  "('t \<Rightarrow> ('h, 't) ProxyShape \<Rightarrow> 'v \<Rightarrow> bool) \<Rightarrow> 't CollisionBody \<Rightarrow>
   ('d, 'h, 't, 'a) CollisionWorld \<Rightarrow> 'v \<Rightarrow> addr \<Rightarrow> bool" where
  "insideAt inside b w worldPoint p = inside (mTransform b) (the (proxyShapes w p)) worldPoint"


text \<open>
  In the examples a point is an integer, and it is inside a proxy shape when it is the
  composed transform of the proxy.
\<close>

definition example_inside :: "int \<Rightarrow> (nat, int) ProxyShape \<Rightarrow> int \<Rightarrow> bool" where
  "example_inside bodyTransform proxy worldPoint =
     (worldPoint = bodyTransform + mLocalToBodyTransform proxy)"

subsection \<open>Unlinking one proxy\<close>

text \<open>
  What removing the proxy \<open>h\<close> from the list \<open>ps\<close> is expected to leave: the node
  before \<open>h\<close> (if any) points to the node after \<open>h\<close>, and \<open>h\<close> is no longer
  live. \<open>unlink_next\<close> is the same on next pointers alone.
\<close>

fun predecessor :: "addr \<Rightarrow> addr list \<Rightarrow> addr option" where
  "predecessor h (x # y # ys) = (if y = h then Some x else predecessor h (y # ys))"
| "predecessor h ps = None"

definition first_of :: "addr list \<Rightarrow> addr option" where
  "first_of ps = (case ps of [] \<Rightarrow> None | p # qs \<Rightarrow> Some p)"

definition unlinked ::
  "(addr \<rightharpoonup> ('h, 't) ProxyShape) \<Rightarrow> addr \<Rightarrow> addr list \<Rightarrow> (addr \<rightharpoonup> ('h, 't) ProxyShape)" where
  "unlinked store h ps =
     (case predecessor h ps of
        None \<Rightarrow> store(h := None)
      | Some pr \<Rightarrow>
          store(pr \<mapsto> (the (store pr))\<lparr>mNext := mNext (the (store h))\<rparr>, h := None))"

definition unlink_next :: "(addr \<rightharpoonup> addr option) \<Rightarrow> addr \<Rightarrow> addr list \<Rightarrow> (addr \<rightharpoonup> addr option)" where
  "unlink_next nxt h ps =
     (case predecessor h ps of
        None \<Rightarrow> nxt(h := None)
      | Some pr \<Rightarrow> nxt(pr \<mapsto> the (nxt h), h := None))"

section \<open>Properties\<close>

subsection \<open>Lists in the store\<close>

lemma chain_None [simp]: "chain nxt None ps = (ps = [])"
  by (cases ps) auto

lemma chain_Some:
  "chain nxt (Some a) ps = (\<exists>q qs. ps = a # qs \<and> nxt a = Some q \<and> chain nxt q qs)"
  by (cases ps) (auto split: option.splits)

lemma chain_unique: "chain nxt p ps \<Longrightarrow> chain nxt p qs \<Longrightarrow> ps = qs"
proof (induction ps arbitrary: p qs)
  case Nil
  then show ?case by simp
next
  case (Cons a ps)
  then show ?case by (cases qs) (auto split: option.splits)
qed

lemma chain_suffix: "chain nxt p (xs @ ys) \<Longrightarrow> \<exists>q. chain nxt q ys"
proof (induction xs arbitrary: p)
  case Nil
  then show ?case by auto
next
  case (Cons x xs)
  then show ?case by (auto split: option.splits)
qed

lemma chain_successor_notin:
  assumes "chain nxt q ps" and "nxt a = Some q"
  shows "a \<notin> set ps"
proof
  assume "a \<in> set ps"
  then obtain xs ys where ps: "ps = xs @ a # ys"
    by (auto simp: in_set_conv_decomp)
  with assms(1) obtain r where "chain nxt r (a # ys)"
    using chain_suffix by blast
  with assms(2) have "chain nxt q ys" by simp
  with assms(1) have "ps = ys" by (rule chain_unique)
  with ps show False by simp
qed

lemma chain_distinct: "chain nxt p ps \<Longrightarrow> distinct ps"
proof (induction ps arbitrary: p)
  case Nil
  then show ?case by simp
next
  case (Cons a ps)
  then show ?case
    by (auto split: option.splits dest: chain_successor_notin)
qed

lemma chain_live: "chain nxt p ps \<Longrightarrow> a \<in> set ps \<Longrightarrow> nxt a \<noteq> None"
  by (induction ps arbitrary: p) (auto split: option.splits)

lemma chain_update_other:
  "a \<notin> set ps \<Longrightarrow> chain (nxt(a := v)) p ps = chain nxt p ps"
  by (induction ps arbitrary: p) (auto split: option.splits)

lemma chain_cong_on:
  "(\<And>a. a \<in> set ps \<Longrightarrow> nxt' a = nxt a) \<Longrightarrow> chain nxt' p ps = chain nxt p ps"
  by (induction ps arbitrary: p) (auto split: option.splits)

subsection \<open>Destroying proxies\<close>

lemma destroy_proxy_eq:
  "destroy_proxy p (shapeOf w p) w =
     w\<lparr>proxyShapes := (proxyShapes w)(p := None), calls := calls w @ removal_calls w p\<rparr>"
  by (simp add: destroy_proxy_def record_call_def removal_calls_def)

lemma proxyNext_destroy_proxy [simp]:
  "proxyNext (destroy_proxy p s w) = (proxyNext w)(p := None)"
  by (auto simp: proxyNext_def destroy_proxy_def record_call_def)

lemma proxyShapes_destroy_proxy [simp]:
  "proxyShapes (destroy_proxy p s w) = (proxyShapes w)(p := None)"
  by (simp add: destroy_proxy_def record_call_def)

lemma proxyList_Cons:
  "proxyList w p (a # as) =
     (p = Some a \<and> (\<exists>cur. proxyShapes w a = Some cur \<and> proxyList w (mNext cur) as))"
  by (auto simp: proxyList_def proxyNext_def split: option.splits)

lemma proxyList_Nil [simp]: "proxyList w p [] = (p = None)"
  by (simp add: proxyList_def)

lemma proxyList_head_notin:
  "proxyShapes w a = Some cur \<Longrightarrow> proxyList w (mNext cur) as \<Longrightarrow> a \<notin> set as"
  unfolding proxyList_def
  by (rule chain_successor_notin [where q = "mNext cur" and nxt = "proxyNext w"])
     (simp_all add: proxyNext_def)

lemma removeAllCollisionShapes_loop_result:
  "proxyList w p ps \<Longrightarrow>
   removeAllCollisionShapes_loop p w =
     Some (Inr (w\<lparr>proxyShapes := (\<lambda>a. if a \<in> set ps then None else proxyShapes w a),
                  calls := calls w @ concat (map (removal_calls w) ps)\<rparr>))"
proof (induction ps arbitrary: p w)
  case Nil
  then show ?case
    by (subst removeAllCollisionShapes_loop.simps) simp
next
  case (Cons a ps)
  from Cons.prems obtain cur where p: "p = Some a" and cur: "proxyShapes w a = Some cur"
    and rest: "proxyList w (mNext cur) ps"
    by (auto simp: proxyList_Cons)
  have notin: "a \<notin> set ps"
    using cur rest by (rule proxyList_head_notin)
  let ?w1 = "destroy_proxy a (mCollisionShape cur) w"
  have sh: "mCollisionShape cur = shapeOf w a"
    by (simp add: shapeOf_def cur)
  have "proxyList ?w1 (mNext cur) ps"
    using rest notin by (simp add: proxyList_def chain_update_other)
  from Cons.IH [OF this]
  have step: "removeAllCollisionShapes_loop (mNext cur) ?w1 =
     Some (Inr (?w1\<lparr>proxyShapes := (\<lambda>x. if x \<in> set ps then None else proxyShapes ?w1 x),
                  calls := calls ?w1 @ concat (map (removal_calls ?w1) ps)\<rparr>))" .
  have calls_same: "map (removal_calls ?w1) ps = map (removal_calls w) ps"
    using notin by (auto simp: removal_calls_def shapeOf_def)
  have heap: "(\<lambda>x. if x \<in> set ps then None else proxyShapes ?w1 x) =
              (\<lambda>x. if x \<in> set (a # ps) then None else proxyShapes w x)"
    by (auto simp: fun_eq_iff)
  have "removeAllCollisionShapes_loop p w = removeAllCollisionShapes_loop (mNext cur) ?w1"
    by (subst removeAllCollisionShapes_loop.simps) (simp add: p cur)
  also note step
  finally show ?case
    unfolding calls_same heap
    by (simp add: sh destroy_proxy_eq)
qed

subsection \<open>Removing all shapes, contact manifolds, registrations\<close>

lemma registered_after_append:
  "registered_after R (cs @ ds) = registered_after (registered_after R cs) ds"
  by (induction R cs rule: registered_after.induct) simp_all

lemma registered_after_removal_calls:
  "registered_after R (concat (map (removal_calls w) ps)) = R - set ps"
  by (induction ps arbitrary: R) (auto simp: removal_calls_def)

lemma removeAllCollisionShapes_result:
  assumes "proxyList w (mProxyCollisionShapes b) ps"
  shows "removeAllCollisionShapes b w =
     Some (Inr (b\<lparr>mProxyCollisionShapes := None\<rparr>,
                w\<lparr>proxyShapes := (\<lambda>a. if a \<in> set ps then None else proxyShapes w a),
                  calls := calls w @ concat (map (removal_calls w) ps)\<rparr>))"
  by (simp add: removeAllCollisionShapes_def removeAllCollisionShapes_loop_result [OF assms])

lemma world_update_order:
  "w\<lparr>calls := c, manifoldElements := m\<rparr> = w\<lparr>manifoldElements := m, calls := c\<rparr>"
  by simp

lemma manifoldList_Cons:
  "manifoldList w p (a # as) =
     (p = Some a \<and> (\<exists>cur. manifoldElements w a = Some cur \<and> manifoldList w (cm_next cur) as))"
  by (auto simp: manifoldList_def manifoldNext_def split: option.splits)

lemma manifoldList_Nil [simp]: "manifoldList w p [] = (p = None)"
  by (simp add: manifoldList_def)

lemma manifoldList_head_notin:
  "manifoldElements w a = Some cur \<Longrightarrow> manifoldList w (cm_next cur) as \<Longrightarrow> a \<notin> set as"
  unfolding manifoldList_def
  by (rule chain_successor_notin [where q = "cm_next cur" and nxt = "manifoldNext w"])
     (simp_all add: manifoldNext_def)

lemma resetContactManifoldsList_loop_result:
  "manifoldList w p ms \<Longrightarrow>
   resetContactManifoldsList_loop p w =
     Some (Inr (w\<lparr>manifoldElements := (\<lambda>a. if a \<in> set ms then None else manifoldElements w a),
                  calls := calls w @ concat (map manifold_release_calls ms)\<rparr>))"
proof (induction ms arbitrary: p w)
  case Nil
  then show ?case
    by (subst resetContactManifoldsList_loop.simps) simp
next
  case (Cons a ms)
  from Cons.prems obtain cur where p: "p = Some a" and cur: "manifoldElements w a = Some cur"
    and rest: "manifoldList w (cm_next cur) ms"
    by (auto simp: manifoldList_Cons)
  have notin: "a \<notin> set ms"
    using cur rest by (rule manifoldList_head_notin)
  let ?w1 = "w\<lparr>manifoldElements := (manifoldElements w)(a := None),
                calls := calls w @ manifold_release_calls a\<rparr>"
  have nxt: "manifoldNext ?w1 = (manifoldNext w)(a := None)"
    by (auto simp: manifoldNext_def)
  have "manifoldList ?w1 (cm_next cur) ms"
    using rest notin by (simp add: manifoldList_def nxt chain_update_other)
  from Cons.IH [OF this]
  have step: "resetContactManifoldsList_loop (cm_next cur) ?w1 =
     Some (Inr (?w1\<lparr>manifoldElements := (\<lambda>x. if x \<in> set ms then None else manifoldElements ?w1 x),
                  calls := calls ?w1 @ concat (map manifold_release_calls ms)\<rparr>))" .
  have heap: "(\<lambda>x. if x \<in> set ms then None else manifoldElements ?w1 x) =
              (\<lambda>x. if x \<in> set (a # ms) then None else manifoldElements w x)"
    by (auto simp: fun_eq_iff)
  have "resetContactManifoldsList_loop p w = resetContactManifoldsList_loop (cm_next cur) ?w1"
    by (subst resetContactManifoldsList_loop.simps)
       (simp add: p cur record_call_def manifold_release_calls_def world_update_order)
  also note step
  finally show ?case
    unfolding heap by simp
qed

lemma registered_append:
  "registered (cs @ ds) = registered_after (registered cs) ds"
  by (simp add: registered_def registered_after_append)


lemma two_shapes_reached:
  "(case addCollisionShape (+) Pair ''box'' 0 1 100 example_body example_world of
      (h1, b1, w1) \<Rightarrow> addCollisionShape (+) Pair ''sphere'' 3 2 101 b1 w1) =
   (101, two_shapes_body, two_shapes_world)"
  by (simp add: addCollisionShape_def record_call_def ProxyShape_new_def example_body_def
      example_world_def CollisionBody_new_def two_shapes_body_def two_shapes_world_def)

lemma two_shapes_list: "proxyList two_shapes_world (mProxyCollisionShapes two_shapes_body) [101, 100]"
  by (simp add: proxyList_def proxyNext_def two_shapes_world_def two_shapes_body_def)

subsection \<open>Adding shapes, updating the broad-phase, testing a point\<close>

lemma addCollisionShape_eq:
  "addCollisionShape mul computeAABB collisionShape transform newCollisionShape storage b w =
     (storage,
      b\<lparr>mProxyCollisionShapes := Some storage,
        mNbCollisionShapes := mNbCollisionShapes b + 1\<rparr>,
      w\<lparr>proxyShapes := (proxyShapes w)
           (storage \<mapsto> (ProxyShape_new (mID b) newCollisionShape transform 1)
                        \<lparr>mNext := mProxyCollisionShapes b\<rparr>),
        calls := calls w @
          [CreateCollisionShape collisionShape newCollisionShape,
           Allocate SizeofProxyShape storage,
           AddProxyCollisionShape storage
             (computeAABB newCollisionShape (mul (mTransform b) transform))]\<rparr>)"
  by (cases "mProxyCollisionShapes b")
     (simp_all add: addCollisionShape_def record_call_def ProxyShape_new_def)

lemma addCollisionShape_step:
  assumes wf: "proxyList w (mProxyCollisionShapes b) ps"
    and fresh: "storage \<notin> dom (proxyShapes w)"
  shows "\<exists>b' w'. addCollisionShape mul computeAABB collisionShape transform newCollisionShape
                   storage b w = (storage, b', w') \<and>
           mProxyCollisionShapes b' = Some storage \<and>
           proxyList w' (mProxyCollisionShapes b') (storage # ps) \<and>
           mNbCollisionShapes b' = mNbCollisionShapes b + 1 \<and>
           dom (proxyShapes w') = insert storage (dom (proxyShapes w))"
proof -
  have notin: "storage \<notin> set ps"
  proof
    assume "storage \<in> set ps"
    with wf have "proxyNext w storage \<noteq> None"
      unfolding proxyList_def by (rule chain_live)
    with fresh show False by (auto simp: proxyNext_def dom_def)
  qed
  let ?n = "(ProxyShape_new (mID b) newCollisionShape transform 1)
              \<lparr>mNext := mProxyCollisionShapes b\<rparr>"
  let ?w' = "w\<lparr>proxyShapes := (proxyShapes w)(storage \<mapsto> ?n),
        calls := calls w @
          [CreateCollisionShape collisionShape newCollisionShape,
           Allocate SizeofProxyShape storage,
           AddProxyCollisionShape storage
             (computeAABB newCollisionShape (mul (mTransform b) transform))]\<rparr>"
  have "chain (proxyNext ?w') (mProxyCollisionShapes b) ps = chain (proxyNext w) (mProxyCollisionShapes b) ps"
    by (rule chain_cong_on) (use notin in \<open>auto simp: proxyNext_def\<close>)
  with wf have "chain (proxyNext ?w') (mProxyCollisionShapes b) ps"
    by (simp add: proxyList_def)
  then have "proxyList ?w' (Some storage) (storage # ps)"
    by (simp add: proxyList_def proxyNext_def)
  then show ?thesis
    unfolding addCollisionShape_eq by simp
qed

lemma addCollisionShapes_general:
  "proxyList w (mProxyCollisionShapes b) ps \<Longrightarrow> distinct (map storage_of args) \<Longrightarrow>
   set (map storage_of args) \<inter> dom (proxyShapes w) = {} \<Longrightarrow>
   \<exists>b' w'. addCollisionShapes mul computeAABB args b w = (map storage_of args, b', w') \<and>
     proxyList w' (mProxyCollisionShapes b') (rev (map storage_of args) @ ps) \<and>
     mNbCollisionShapes b' = mNbCollisionShapes b + int (length args)"
proof (induction args arbitrary: b w ps)
  case Nil
  then show ?case by simp
next
  case (Cons arg args)
  obtain d t h storage where arg: "arg = (d, t, h, storage)"
    by (cases arg) auto
  have fresh: "storage \<notin> dom (proxyShapes w)"
    using Cons.prems(3) by (auto simp: arg storage_of_def)
  from addCollisionShape_step [OF Cons.prems(1) fresh, of mul computeAABB d t h]
  obtain b1 w1 where
    step: "addCollisionShape mul computeAABB d t h storage b w = (storage, b1, w1)"
    and wf1: "proxyList w1 (mProxyCollisionShapes b1) (storage # ps)"
    and n1: "mNbCollisionShapes b1 = mNbCollisionShapes b + 1"
    and dom1: "dom (proxyShapes w1) = insert storage (dom (proxyShapes w))"
    by blast
  have d1: "distinct (map storage_of args)"
    using Cons.prems(2) by simp
  have f1: "set (map storage_of args) \<inter> dom (proxyShapes w1) = {}"
    using Cons.prems(2,3) by (auto simp: dom1 arg storage_of_def)
  from Cons.IH [OF wf1 d1 f1]
  obtain b2 w2 where
    rest: "addCollisionShapes mul computeAABB args b1 w1 = (map storage_of args, b2, w2)"
    and wf2: "proxyList w2 (mProxyCollisionShapes b2) (rev (map storage_of args) @ storage # ps)"
    and n2: "mNbCollisionShapes b2 = mNbCollisionShapes b1 + int (length args)"
    by blast
  have "storage_of arg = storage"
    by (simp add: arg storage_of_def)
  then show ?case
    using step rest wf2 n1 n2 by (simp add: arg)
qed

lemma proxyList_record_call [simp]:
  "proxyList (record_call c w) p ps = proxyList w p ps"
  by (simp add: proxyList_def proxyNext_def record_call_def)

lemma update_call_calls_update [simp]:
  "update_call mul computeAABB b (w\<lparr>calls := cs\<rparr>) = update_call mul computeAABB b w"
  by (simp add: update_call_def shapeOf_def localOf_def fun_eq_iff)

lemma updateBroadPhaseState_loop_result:
  "proxyList w p ps \<Longrightarrow>
   updateBroadPhaseState_loop mul computeAABB b p w =
     Some (Inr (w\<lparr>calls := calls w @ map (update_call mul computeAABB b w) ps\<rparr>))"
proof (induction ps arbitrary: p w)
  case Nil
  then show ?case
    by (subst updateBroadPhaseState_loop.simps) simp
next
  case (Cons a ps)
  from Cons.prems obtain cur where p: "p = Some a" and cur: "proxyShapes w a = Some cur"
    and rest: "proxyList w (mNext cur) ps"
    by (auto simp: proxyList_Cons)
  let ?c = "update_call mul computeAABB b w a"
  have c: "?c = UpdateProxyCollisionShape a
     (computeAABB (mCollisionShape cur) (mul (mTransform b) (mLocalToBodyTransform cur)))"
    by (simp add: update_call_def shapeOf_def localOf_def cur)
  have "proxyList (record_call ?c w) (mNext cur) ps"
    using rest by simp
  from Cons.IH [OF this]
  have step: "updateBroadPhaseState_loop mul computeAABB b (mNext cur) (record_call ?c w) =
     Some (Inr (w\<lparr>calls := calls w @ map (update_call mul computeAABB b w) (a # ps)\<rparr>))"
    by (simp add: record_call_def [of ?c w])
  have "updateBroadPhaseState_loop mul computeAABB b p w =
        updateBroadPhaseState_loop mul computeAABB b (mNext cur) (record_call ?c w)"
    by (subst updateBroadPhaseState_loop.simps)
       (simp add: p cur c record_call_def [where w = w])
  with step show ?case by simp
qed

lemma testPointInside_loop_result:
  "proxyList w p ps \<Longrightarrow>
   testPointInside_loop inside b w worldPoint p queried =
     Some (Inr (list_ex (insideAt inside b w worldPoint) ps,
                queried @ takeWhile (\<lambda>q. \<not> insideAt inside b w worldPoint q) ps
                        @ take 1 (dropWhile (\<lambda>q. \<not> insideAt inside b w worldPoint q) ps)))"
proof (induction ps arbitrary: p queried)
  case Nil
  then show ?case
    by (subst testPointInside_loop.simps) simp
next
  case (Cons a ps)
  from Cons.prems obtain cur where p: "p = Some a" and cur: "proxyShapes w a = Some cur"
    and rest: "proxyList w (mNext cur) ps"
    by (auto simp: proxyList_Cons)
  have ins: "insideAt inside b w worldPoint a = inside (mTransform b) cur worldPoint"
    by (simp add: insideAt_def cur)
  show ?case
  proof (cases "inside (mTransform b) cur worldPoint")
    case True
    then show ?thesis
      by (subst testPointInside_loop.simps) (simp add: p cur ins)
  next
    case False
    have "testPointInside_loop inside b w worldPoint p queried =
          testPointInside_loop inside b w worldPoint (mNext cur) (queried @ [a])"
      by (subst testPointInside_loop.simps) (simp add: p cur False)
    then show ?thesis
      using False by (simp add: Cons.IH [OF rest] ins)
  qed
qed

lemma two_shapes_sequence:
  "addCollisionShapes (+) Pair [(''box'', 0, 1, 100), (''sphere'', 3, 2, 101)]
     example_body example_world = ([100, 101], two_shapes_body, two_shapes_world)"
  using two_shapes_reached by (simp add: addCollisionShape_eq)

text \<open>
  Attaching in a state where the shape count agrees with the list:
  \<open>addCollisionShape\<close> on a body whose proxy shapes form the list \<open>ps\<close>, with
  storage that is not in use, returns the address of the new proxy, makes it the head
  of the list (the list becomes \<open>storage # ps\<close>) and adds 1 to the shape count.
  After a sequence of \<open>N\<close> such calls on a freshly constructed body (the storage
  addresses pairwise distinct and not in use before), the returned pointers are the
  storage addresses in call order, the shape count is \<open>N\<close>, and the proxy list
  holds exactly these \<open>N\<close> proxies, the most recently attached first.
\<close>

theorem addCollisionShape_prepends_and_counts:
  "(proxyList w (mProxyCollisionShapes b) ps \<and> storage \<notin> dom (proxyShapes w) \<longrightarrow>
      (case addCollisionShape mul computeAABB collisionShape transform newCollisionShape
              storage b w of
         (handle, b', w') \<Rightarrow>
           handle = storage \<and>
           mProxyCollisionShapes b' = Some storage \<and>
           proxyList w' (mProxyCollisionShapes b') (storage # ps) \<and>
           mNbCollisionShapes b' = mNbCollisionShapes b + 1)) \<and>
   (distinct (map storage_of args) \<and>
    set (map storage_of args) \<inter> dom (proxyShapes w0) = {} \<longrightarrow>
      (case addCollisionShapes mul computeAABB args (CollisionBody_new bodyTransform ident) w0 of
         (handles, b', w') \<Rightarrow>
           handles = map storage_of args \<and>
           mNbCollisionShapes b' = int (length args) \<and>
           proxyList w' (mProxyCollisionShapes b') (rev (map storage_of args)) \<and>
           length (rev (map storage_of args)) = length args))"
proof (intro conjI impI)
  assume "proxyList w (mProxyCollisionShapes b) ps \<and> storage \<notin> dom (proxyShapes w)"
  then have wf: "proxyList w (mProxyCollisionShapes b) ps"
    and fresh: "storage \<notin> dom (proxyShapes w)"
    by simp_all
  from addCollisionShape_step [OF wf fresh, of mul computeAABB collisionShape transform
      newCollisionShape]
  show "case addCollisionShape mul computeAABB collisionShape transform newCollisionShape
              storage b w of
         (handle, b', w') \<Rightarrow>
           handle = storage \<and>
           mProxyCollisionShapes b' = Some storage \<and>
           proxyList w' (mProxyCollisionShapes b') (storage # ps) \<and>
           mNbCollisionShapes b' = mNbCollisionShapes b + 1"
    by auto
next
  let ?b0 = "CollisionBody_new bodyTransform ident"
  assume "distinct (map storage_of args) \<and>
    set (map storage_of args) \<inter> dom (proxyShapes w0) = {}"
  then have d: "distinct (map storage_of args)"
    and fresh: "set (map storage_of args) \<inter> dom (proxyShapes w0) = {}"
    by simp_all
  have empty: "proxyList w0 (mProxyCollisionShapes ?b0) []"
    by (simp add: CollisionBody_new_def)
  have zero: "mNbCollisionShapes ?b0 = 0"
    by (simp add: CollisionBody_new_def)
  from addCollisionShapes_general [OF empty d fresh, of mul computeAABB]
  show "case addCollisionShapes mul computeAABB args ?b0 w0 of
         (handles, b', w') \<Rightarrow>
           handles = map storage_of args \<and>
           mNbCollisionShapes b' = int (length args) \<and>
           proxyList w' (mProxyCollisionShapes b') (rev (map storage_of args)) \<and>
           length (rev (map storage_of args)) = length args"
    by (auto simp: zero)
qed


theorem addCollisionShape_prepends_and_counts_witness:
  "proxyList two_shapes_world (mProxyCollisionShapes two_shapes_body) [101, 100] \<and>
   102 \<notin> dom (proxyShapes two_shapes_world) \<and>
   fst (addCollisionShape (+) Pair ''cone'' 4 3 102 two_shapes_body two_shapes_world) = 102 \<and>
   mNbCollisionShapes
     (fst (snd (addCollisionShape (+) Pair ''cone'' 4 3 102 two_shapes_body two_shapes_world))) = 3 \<and>
   distinct (map storage_of [(''box'', 0::int, 1::nat, 100), (''sphere'', 3, 2, 101)]) \<and>
   set (map storage_of [(''box'', 0::int, 1::nat, 100), (''sphere'', 3, 2, 101)]) \<inter>
     dom (proxyShapes example_world) = {} \<and>
   mNbCollisionShapes two_shapes_body = 2 \<and>
   proxyList two_shapes_world (mProxyCollisionShapes two_shapes_body) (rev [100, 101])"
proof -
  have fresh: "102 \<notin> dom (proxyShapes two_shapes_world)"
    by (simp add: two_shapes_world_def)
  have d: "distinct (map storage_of [(''box'', 0::int, 1::nat, 100), (''sphere'', 3, 2, 101)])"
    by (simp add: storage_of_def)
  have e: "set (map storage_of [(''box'', 0::int, 1::nat, 100), (''sphere'', 3, 2, 101)]) \<inter>
     dom (proxyShapes example_world) = {}"
    by (simp add: example_world_def)
  have m: "map storage_of [(''box'', 0::int, 1::nat, 100), (''sphere'', 3, 2, 101)] = [100, 101]"
    by (simp add: storage_of_def)
  have n: "mNbCollisionShapes two_shapes_body = 2"
    by (simp add: two_shapes_body_def)
  from addCollisionShape_prepends_and_counts
    [of two_shapes_world two_shapes_body "[101, 100]" 102 "(+)" Pair "''cone''" 4 3
        "[(''box'', 0, 1, 100), (''sphere'', 3, 2, 101)]" example_world 5 0]
    two_shapes_list fresh d e
  show ?thesis
    unfolding example_body_def [symmetric] two_shapes_sequence m
    by (auto simp: n split: prod.splits)
qed

subsection \<open>Removing one shape\<close>

lemma predecessor_None: "h \<notin> set (tl ps) \<Longrightarrow> predecessor h ps = None"
  by (induction h ps rule: predecessor.induct) auto

lemma predecessor_in_set: "predecessor h ps = Some pr \<Longrightarrow> pr \<in> set ps"
  by (induction h ps rule: predecessor.induct) (auto split: if_splits)

lemma predecessor_neq: "distinct ps \<Longrightarrow> predecessor h ps = Some pr \<Longrightarrow> pr \<noteq> h"
  by (induction h ps rule: predecessor.induct) (auto split: if_splits)

lemma chain_first_of: "chain nxt p ps \<Longrightarrow> p = first_of ps"
  by (cases ps) (auto simp: first_of_def)

lemma chain_unlink_next:
  "chain nxt p ps \<Longrightarrow> h \<in> set ps \<Longrightarrow>
   chain (unlink_next nxt h ps) (first_of (remove1 h ps)) (remove1 h ps)"
proof (induction ps arbitrary: p)
  case Nil
  then show ?case by simp
next
  case (Cons a as)
  from Cons.prems(1) obtain q where p: "p = Some a" and a: "nxt a = Some q"
    and rest: "chain nxt q as"
    by (auto split: option.splits)
  have a_notin: "a \<notin> set as"
    using rest a by (rule chain_successor_notin)
  have q: "q = first_of as"
    using rest by (rule chain_first_of)
  show ?case
  proof (cases "h = a")
    case True
    then have pn: "predecessor h (a # as) = None"
      using a_notin by (simp add: predecessor_None)
    have "chain (unlink_next nxt h (a # as)) q as = chain nxt q as"
      by (rule chain_cong_on) (use True a_notin pn in \<open>auto simp: unlink_next_def\<close>)
    with rest show ?thesis
      using True q by simp
  next
    case False
    with Cons.prems(2) have h_in: "h \<in> set as" by simp
    then obtain y ys where as: "as = y # ys" by (cases as) auto
    show ?thesis
    proof (cases "y = h")
      case True
      from rest as True obtain r where hn: "nxt h = Some r" and tail: "chain nxt r ys"
        by (auto split: option.splits)
      have h_notin: "h \<notin> set ys"
        using tail hn by (rule chain_successor_notin)
      have a_notin': "a \<notin> set ys"
        using a_notin as by simp
      have pn: "predecessor h (a # as) = Some a"
        using as True by simp
      have "chain (unlink_next nxt h (a # as)) r ys = chain nxt r ys"
        by (rule chain_cong_on) (use h_notin a_notin' pn in \<open>auto simp: unlink_next_def\<close>)
      with tail have "chain (unlink_next nxt h (a # as)) r ys" by simp
      moreover have "unlink_next nxt h (a # as) a = Some r"
        using pn hn False by (simp add: unlink_next_def)
      ultimately show ?thesis
        using False True as by (simp add: first_of_def)
    next
      case y: False
      have same: "unlink_next nxt h (a # as) = unlink_next nxt h as"
        using y as by (simp add: unlink_next_def)
      have ih: "chain (unlink_next nxt h as) (first_of (remove1 h as)) (remove1 h as)"
        using Cons.IH [OF rest h_in] .
      have fo: "first_of (remove1 h as) = Some y"
        using y as by (simp add: first_of_def)
      have "unlink_next nxt h as a = nxt a"
        using a_notin False
        by (auto simp: unlink_next_def split: option.splits dest: predecessor_in_set)
      with a q as have "unlink_next nxt h as a = Some (Some y)"
        by (simp add: first_of_def)
      with ih fo show ?thesis
        using False by (simp add: same first_of_def)
    qed
  qed
qed

lemma unlinked_next:
  assumes "proxyList w p ps"
  shows "(\<lambda>a. map_option mNext (unlinked (proxyShapes w) h ps a)) = unlink_next (proxyNext w) h ps"
proof (cases "predecessor h ps")
  case None
  then show ?thesis
    by (auto simp: unlinked_def unlink_next_def proxyNext_def fun_eq_iff)
next
  case (Some pr)
  then have "pr \<in> set ps" by (rule predecessor_in_set)
  with assms have "proxyNext w pr \<noteq> None"
    unfolding proxyList_def by (rule chain_live)
  then obtain n where "proxyShapes w pr = Some n"
    by (auto simp: proxyNext_def)
  moreover have "h \<in> set ps"
    using Some by (induction h ps rule: predecessor.induct) (auto split: if_splits)
  with assms have "proxyNext w h \<noteq> None"
    unfolding proxyList_def by (rule chain_live)
  then obtain m where "proxyShapes w h = Some m"
    by (auto simp: proxyNext_def)
  ultimately show ?thesis
    using Some by (auto simp: unlinked_def unlink_next_def proxyNext_def fun_eq_iff)
qed

lemma world_update_order2:
  "w\<lparr>calls := c, proxyShapes := m\<rparr> = w\<lparr>proxyShapes := m, calls := c\<rparr>"
  by simp

lemma removeCollisionShape_loop_found:
  "proxyList w (Some c) (c # as) \<Longrightarrow> h \<in> set as \<Longrightarrow>
   removeCollisionShape_loop (Some h) c b w =
     Some (Inr (b\<lparr>mNbCollisionShapes := mNbCollisionShapes b - 1\<rparr>,
                w\<lparr>proxyShapes := unlinked (proxyShapes w) h (c # as),
                  calls := calls w @ removal_calls w h\<rparr>))"
proof (induction as arbitrary: c)
  case Nil
  then show ?case by simp
next
  case (Cons n as)
  from Cons.prems(1) obtain cur nn where cur: "proxyShapes w c = Some cur"
    and nx: "mNext cur = Some n" and nn: "proxyShapes w n = Some nn"
    and rest: "proxyList w (mNext nn) as"
    by (auto simp: proxyList_Cons)
  have tail: "proxyList w (Some n) (n # as)"
    using nn rest by (simp add: proxyList_Cons)
  have "distinct (c # n # as)"
    using Cons.prems(1) unfolding proxyList_def by (rule chain_distinct)
  then have cn: "c \<noteq> n" and n_notin: "n \<notin> set as"
    by auto
  show ?case
  proof (cases "n = h")
    case True
    have "unlinked (proxyShapes w) h (c # n # as) =
          (proxyShapes w)(c \<mapsto> cur\<lparr>mNext := mNext nn\<rparr>, h := None)"
      using True cur nn by (simp add: unlinked_def)
    moreover have "removal_calls w h =
       [RemoveProxyCollisionShape h, RemoveCollisionShape (mCollisionShape nn),
        DestructProxyShape h, Release h SizeofProxyShape]"
      using True nn by (simp add: removal_calls_def shapeOf_def)
    moreover have "proxyShapes w h = Some nn" "mNext cur = Some h" "c \<noteq> h"
      using True nn nx cn by simp_all
    ultimately show ?thesis
      by (subst removeCollisionShape_loop.simps)
         (simp add: cur destroy_proxy_def record_call_def world_update_order2)
  next
    case False
    with Cons.prems(2) have h_in: "h \<in> set as" by simp
    have "removeCollisionShape_loop (Some h) c b w = removeCollisionShape_loop (Some h) n b w"
      using False by (subst removeCollisionShape_loop.simps) (simp add: cur nx)
    also note Cons.IH [OF tail h_in]
    finally show ?thesis
      using False by (simp add: unlinked_def)
  qed
qed

lemma removeCollisionShape_found:
  assumes wf: "proxyList w (mProxyCollisionShapes b) ps" and h_in: "h \<in> set ps"
  shows "removeCollisionShape (Some h) b w =
     Some (Inr (b\<lparr>mProxyCollisionShapes := first_of (remove1 h ps),
                  mNbCollisionShapes := mNbCollisionShapes b - 1\<rparr>,
                w\<lparr>proxyShapes := unlinked (proxyShapes w) h ps,
                  calls := calls w @ removal_calls w h\<rparr>))"
proof -
  from h_in obtain c as where ps: "ps = c # as" by (cases ps) auto
  from wf ps obtain cur where head: "mProxyCollisionShapes b = Some c"
    and cur: "proxyShapes w c = Some cur" and rest: "proxyList w (mNext cur) as"
    by (auto simp: proxyList_Cons)
  have c_notin: "c \<notin> set as"
    using cur rest by (rule proxyList_head_notin)
  show ?thesis
  proof (cases "c = h")
    case True
    have "mNext cur = first_of as"
      using rest unfolding proxyList_def by (rule chain_first_of)
    moreover have "unlinked (proxyShapes w) h ps = (proxyShapes w)(h := None)"
      using True c_notin ps by (simp add: unlinked_def predecessor_None)
    moreover have "removal_calls w h =
       [RemoveProxyCollisionShape c, RemoveCollisionShape (mCollisionShape cur),
        DestructProxyShape c, Release c SizeofProxyShape]"
      using True cur by (simp add: removal_calls_def shapeOf_def)
    ultimately show ?thesis
      using True ps head cur
      by (simp add: removeCollisionShape_def destroy_proxy_def record_call_def
          world_update_order2)
  next
    case False
    with h_in ps have "h \<in> set as" by simp
    from removeCollisionShape_loop_found [OF _ this, of w c b] wf head ps
    have "removeCollisionShape_loop (Some h) c b w =
     Some (Inr (b\<lparr>mNbCollisionShapes := mNbCollisionShapes b - 1\<rparr>,
                w\<lparr>proxyShapes := unlinked (proxyShapes w) h ps,
                  calls := calls w @ removal_calls w h\<rparr>))"
      by simp
    moreover have "b\<lparr>mProxyCollisionShapes := Some c,
                  mNbCollisionShapes := mNbCollisionShapes b - 1\<rparr> =
          b\<lparr>mNbCollisionShapes := mNbCollisionShapes b - 1\<rparr>"
      using head by simp
    ultimately show ?thesis
      using False head ps by (simp add: removeCollisionShape_def first_of_def)
  qed
qed

lemma predecessor_Some_mem: "predecessor h ps = Some pr \<Longrightarrow> h \<in> set ps"
  by (induction h ps rule: predecessor.induct) (auto split: if_splits)

lemma unlinked_payload:
  assumes wf: "proxyList w p ps"
  shows "map_option (\<lambda>n. n\<lparr>mNext := None\<rparr>) (unlinked (proxyShapes w) h ps a) =
         (if a = h then None else map_option (\<lambda>n. n\<lparr>mNext := None\<rparr>) (proxyShapes w a))"
proof (cases "predecessor h ps")
  case None
  then show ?thesis by (simp add: unlinked_def)
next
  case (Some pr)
  then have "pr \<in> set ps" by (rule predecessor_in_set)
  with wf have "proxyNext w pr \<noteq> None"
    unfolding proxyList_def by (rule chain_live)
  then obtain n where n: "proxyShapes w pr = Some n"
    by (auto simp: proxyNext_def)
  have "distinct ps"
    using wf unfolding proxyList_def by (rule chain_distinct)
  then have "pr \<noteq> h"
    using Some by (rule predecessor_neq)
  then show ?thesis
    using Some n by (simp add: unlinked_def)
qed

lemma unlinked_dom:
  assumes wf: "proxyList w p ps"
  shows "dom (unlinked (proxyShapes w) h ps) = dom (proxyShapes w) - {h}"
proof -
  have "(unlinked (proxyShapes w) h ps a = None) = (a = h \<or> proxyShapes w a = None)" for a
    using unlinked_payload [OF wf, of h a] by (auto split: if_splits)
  then show ?thesis by (auto simp: dom_def)
qed


lemma removeCollisionShape_loop_not_found:
  "proxyList w (Some c) (c # as) \<Longrightarrow> proxyShape \<notin> Some ` set as \<Longrightarrow>
   0 \<le> mNbCollisionShapes b \<Longrightarrow>
   removeCollisionShape_loop proxyShape c b w = Some (Inr (b, w))"
proof (induction as arbitrary: c)
  case Nil
  then show ?case
    by (subst removeCollisionShape_loop.simps) (auto simp: proxyList_Cons)
next
  case (Cons n as)
  from Cons.prems(1) obtain cur nn where cur: "proxyShapes w c = Some cur"
    and nx: "mNext cur = Some n" and nn: "proxyShapes w n = Some nn"
    and rest: "proxyList w (mNext nn) as"
    by (auto simp: proxyList_Cons)
  have tail: "proxyList w (Some n) (n # as)"
    using nn rest by (simp add: proxyList_Cons)
  have neq: "Some n \<noteq> proxyShape" and others: "proxyShape \<notin> Some ` set as"
    using Cons.prems(2) by auto
  have "removeCollisionShape_loop proxyShape c b w = removeCollisionShape_loop proxyShape n b w"
    using neq by (subst removeCollisionShape_loop.simps) (simp add: cur nx)
  also have "\<dots> = Some (Inr (b, w))"
    using tail others Cons.prems(3) by (rule Cons.IH)
  finally show ?case .
qed

lemma removeCollisionShape_not_found:
  assumes "proxyList w (mProxyCollisionShapes b) ps" and "ps \<noteq> []"
    and "proxyShape \<notin> Some ` set ps" and "0 \<le> mNbCollisionShapes b"
  shows "removeCollisionShape proxyShape b w = Some (Inr (b, w))"
proof -
  from assms(2) obtain c as where ps: "ps = c # as" by (cases ps) auto
  with assms(1) have head: "mProxyCollisionShapes b = Some c"
    by (simp add: proxyList_Cons)
  have "removeCollisionShape_loop proxyShape c b w = Some (Inr (b, w))"
    using assms(1,3,4) unfolding ps head
    by (intro removeCollisionShape_loop_not_found) auto
  then show ?thesis
    using assms(3) by (auto simp: removeCollisionShape_def head ps)
qed

subsection \<open>The claims\<close>

text \<open>
  C1 (the code at a failing input): the shape count does not always equal the number
  of proxies in the list. After one \<open>addCollisionShape\<close> on a fresh body followed by
  \<open>removeAllCollisionShapes\<close>, the proxy list is empty and \<open>mNbCollisionShapes\<close> is
  still 1.
\<close>

theorem shape_count_stale_after_removeAll:
  "(case addCollisionShape (+) Pair ''box'' 0 (1::nat) 100 example_body example_world of
      (h, b1, w1) \<Rightarrow>
        map_option (map_sum id (\<lambda>(b2, w2).
            (proxyList w2 (mProxyCollisionShapes b2) [], mNbCollisionShapes b2)))
          (removeAllCollisionShapes b1 w1)) = Some (Inr (True, 1))"
  by (simp add: addCollisionShape_def record_call_def ProxyShape_new_def example_body_def
      example_world_def CollisionBody_new_def removeAllCollisionShapes_def
      removeAllCollisionShapes_loop.simps destroy_proxy_def)

text \<open>
  C2 (the code at a failing input): \<open>removeAllCollisionShapes\<close> on the body with
  two attached shapes empties the list and frees both proxies, and leaves
  \<open>mNbCollisionShapes\<close> at 2, not 0.
\<close>

theorem removeAllCollisionShapes_leaves_count:
  "map_option (map_sum id (\<lambda>(b, w).
       (mProxyCollisionShapes b, dom (proxyShapes w), mNbCollisionShapes b)))
     (removeAllCollisionShapes two_shapes_body two_shapes_world) = Some (Inr (None, {}, 2))"
  by (simp add: two_shapes_body_def two_shapes_world_def example_body_def CollisionBody_new_def
      removeAllCollisionShapes_def removeAllCollisionShapes_loop.simps destroy_proxy_def
      record_call_def)

text \<open>
  C3 (the code at a failing input): on a body whose proxy list is empty,
  \<open>removeCollisionShape\<close> dereferences the null head of the list, whatever pointer
  it is given; it is not a silent no-op.
\<close>

theorem removeCollisionShape_empty_list_null_dereference:
  "removeCollisionShape proxyShape (CollisionBody_new transform ident) w =
     Some (Inl NullPointerDereference)"
  by (simp add: removeCollisionShape_def CollisionBody_new_def)

text \<open>
  C4: on a body whose proxy shapes form the list \<open>ps\<close>, \<open>removeCollisionShape\<close>
  with a pointer \<open>h\<close> of the list returns; the list is then \<open>ps\<close> without \<open>h\<close>
  (every other proxy stays, in the same order), the shape count is one less, \<open>h\<close>
  and no other proxy has left the store, every other proxy is unchanged apart from
  its next pointer, and the calls made are exactly the deregistration of \<open>h\<close>, the
  release of its shape, its destructor and the release of its storage. The statement
  is the same for the head and for any later position; when \<open>h\<close> is the only
  element the head becomes \<open>NULL\<close>.
\<close>

theorem removeCollisionShape_removes_exactly_one:
  assumes wf: "proxyList w (mProxyCollisionShapes b) ps" and h_in: "h \<in> set ps"
  shows "(let b' = b\<lparr>mProxyCollisionShapes := first_of (remove1 h ps),
                    mNbCollisionShapes := mNbCollisionShapes b - 1\<rparr>;
              w' = w\<lparr>proxyShapes := unlinked (proxyShapes w) h ps,
                     calls := calls w @
                       [RemoveProxyCollisionShape h, RemoveCollisionShape (shapeOf w h),
                        DestructProxyShape h, Release h SizeofProxyShape]\<rparr>
          in removeCollisionShape (Some h) b w = Some (Inr (b', w')) \<and>
             proxyList w' (mProxyCollisionShapes b') (remove1 h ps) \<and>
             set (remove1 h ps) = set ps - {h} \<and>
             mNbCollisionShapes b' = mNbCollisionShapes b - 1 \<and>
             dom (proxyShapes w') = dom (proxyShapes w) - {h} \<and>
             (\<forall>a. map_option (\<lambda>n. n\<lparr>mNext := None\<rparr>) (proxyShapes w' a) =
                    (if a = h then None
                     else map_option (\<lambda>n. n\<lparr>mNext := None\<rparr>) (proxyShapes w a))) \<and>
             (ps = [h] \<longrightarrow> mProxyCollisionShapes b' = None))"
proof -
  let ?w' = "w\<lparr>proxyShapes := unlinked (proxyShapes w) h ps,
                calls := calls w @ removal_calls w h\<rparr>"
  have d: "distinct ps"
    using wf unfolding proxyList_def by (rule chain_distinct)
  have "proxyNext ?w' = unlink_next (proxyNext w) h ps"
    using unlinked_next [OF wf, of h] by (simp add: proxyNext_def)
  moreover have "chain (unlink_next (proxyNext w) h ps) (first_of (remove1 h ps)) (remove1 h ps)"
    using wf h_in unfolding proxyList_def by (rule chain_unlink_next)
  ultimately have list: "proxyList ?w' (first_of (remove1 h ps)) (remove1 h ps)"
    by (simp add: proxyList_def)
  have single: "ps = [h] \<longrightarrow> first_of (remove1 h ps) = None"
    by (simp add: first_of_def)
  have rc: "removal_calls w h = [RemoveProxyCollisionShape h, RemoveCollisionShape (shapeOf w h),
                        DestructProxyShape h, Release h SizeofProxyShape]"
    by (simp add: removal_calls_def)
  show ?thesis
    using removeCollisionShape_found [OF wf h_in] list d single
      unlinked_dom [OF wf, of h] unlinked_payload [OF wf, of h]
    unfolding rc Let_def
    by simp
qed

theorem removeCollisionShape_removes_exactly_one_witness:
  "proxyList two_shapes_world (mProxyCollisionShapes two_shapes_body) [101, 100] \<and>
   101 \<in> set [101, 100::nat] \<and> 100 \<in> set [101, 100::nat] \<and>
   map_option (map_sum id (\<lambda>(b, w). (mProxyCollisionShapes b, mNbCollisionShapes b,
                                       dom (proxyShapes w), proxyList w (Some 100) [100])))
     (removeCollisionShape (Some 101) two_shapes_body two_shapes_world) =
     Some (Inr (Some 100, 1, {100}, True)) \<and>
   map_option (map_sum id (\<lambda>(b, w). (mProxyCollisionShapes b, mNbCollisionShapes b,
                                       dom (proxyShapes w), proxyList w (Some 101) [101])))
     (removeCollisionShape (Some 100) two_shapes_body two_shapes_world) =
     Some (Inr (Some 101, 1, {101}, True)) \<and>
   proxyList (two_shapes_world\<lparr>proxyShapes := (proxyShapes two_shapes_world)(101 := None)\<rparr>)
     (mProxyCollisionShapes (two_shapes_body\<lparr>mProxyCollisionShapes := Some 100\<rparr>)) [100] \<and>
   map_option (map_sum id (\<lambda>(b, w). (mProxyCollisionShapes b, dom (proxyShapes w))))
     (removeCollisionShape (Some 100) (two_shapes_body\<lparr>mProxyCollisionShapes := Some 100\<rparr>)
        (two_shapes_world\<lparr>proxyShapes := (proxyShapes two_shapes_world)(101 := None)\<rparr>)) =
     Some (Inr (None, {}))"
proof -
  let ?w1 = "two_shapes_world\<lparr>proxyShapes := (proxyShapes two_shapes_world)(101 := None)\<rparr>"
  let ?b1 = "two_shapes_body\<lparr>mProxyCollisionShapes := Some 100\<rparr>"
  have one: "proxyList ?w1 (mProxyCollisionShapes ?b1) [100]"
    by (simp add: proxyList_def proxyNext_def two_shapes_world_def)
  have n: "mNbCollisionShapes two_shapes_body = 2"
    by (simp add: two_shapes_body_def)
  have dm: "dom (proxyShapes two_shapes_world) = {100, 101}"
    by (auto simp: two_shapes_world_def)
  have dm1: "dom (proxyShapes ?w1) = {100}"
    by (auto simp: two_shapes_world_def)
  have a: "101 \<in> set [101, 100::nat]" and b: "100 \<in> set [101, 100::nat]"
    and c: "100 \<in> set [100::nat]"
    by simp_all
  from removeCollisionShape_removes_exactly_one [OF two_shapes_list a]
  have r1: "map_option (map_sum id (\<lambda>(b, w). (mProxyCollisionShapes b, mNbCollisionShapes b,
                                       dom (proxyShapes w), proxyList w (Some 100) [100])))
     (removeCollisionShape (Some 101) two_shapes_body two_shapes_world) =
     Some (Inr (Some 100, 1, {100}, True))"
    unfolding Let_def by (auto simp: first_of_def n dm)
  from removeCollisionShape_removes_exactly_one [OF two_shapes_list b]
  have r2: "map_option (map_sum id (\<lambda>(b, w). (mProxyCollisionShapes b, mNbCollisionShapes b,
                                       dom (proxyShapes w), proxyList w (Some 101) [101])))
     (removeCollisionShape (Some 100) two_shapes_body two_shapes_world) =
     Some (Inr (Some 101, 1, {101}, True))"
    unfolding Let_def by (auto simp: first_of_def n dm)
  from removeCollisionShape_removes_exactly_one [OF one c]
  have r3: "map_option (map_sum id (\<lambda>(b, w). (mProxyCollisionShapes b, dom (proxyShapes w))))
     (removeCollisionShape (Some 100) ?b1 ?w1) = Some (Inr (None, {}))"
    unfolding Let_def dm1 by (auto simp: first_of_def)
  from r1 r2 r3 two_shapes_list one show ?thesis
    by simp
qed

text \<open>
  C5 (the code at a failing input): a body whose proxy list is empty need not count 0.
  After one \<open>addCollisionShape\<close> on a fresh body and \<open>removeAllCollisionShapes\<close>,
  the body is empty (head \<open>NULL\<close>, no live proxy) and \<open>mNbCollisionShapes\<close> is
  still 1; one \<open>addCollisionShape\<close> on this empty body returns the new proxy and
  makes it the only node of the list, and the shape count is 2, not 1.
\<close>

theorem addCollisionShape_on_emptied_body_counts_two:
  "(case addCollisionShape (+) Pair ''box'' 0 (1::nat) 100 example_body example_world of
      (h, b1, w1) \<Rightarrow>
        map_option (map_sum id (\<lambda>(b2, w2).
            (mProxyCollisionShapes b2, dom (proxyShapes w2),
             (case addCollisionShapes (+) Pair [(''sphere'', 3, 2, 101)] b2 w2 of
                (handles, b3, w3) \<Rightarrow>
                  (handles, proxyList w3 (mProxyCollisionShapes b3) [101],
                   mNbCollisionShapes b3)))))
          (removeAllCollisionShapes b1 w1)) = Some (Inr (None, {}, [101], True, 2))"
  by (simp add: addCollisionShape_def record_call_def ProxyShape_new_def example_body_def
      example_world_def CollisionBody_new_def removeAllCollisionShapes_def
      removeAllCollisionShapes_loop.simps destroy_proxy_def proxyList_def proxyNext_def)

text \<open>
  C6: the destructor of a body whose contact manifold list is not empty fails its
  assertion. On a body whose contact manifold list is empty and whose proxy shapes
  form a well-formed list \<open>ps\<close> it returns, having done what
  \<open>removeAllCollisionShapes\<close> does: every proxy of the list is deregistered from
  the collision detection, its shape released, and its storage freed, once; none of
  them is registered with the broad-phase afterwards.
\<close>

theorem CollisionBody_destroy_result:
  "(mContactManifoldsList b \<noteq> None \<longrightarrow>
      CollisionBody_destroy b w = Some (Inl AssertionFailure)) \<and>
   (mContactManifoldsList b = None \<and> proxyList w (mProxyCollisionShapes b) ps \<longrightarrow>
      (let w' = w\<lparr>proxyShapes := (\<lambda>a. if a \<in> set ps then None else proxyShapes w a),
                   calls := calls w @ concat (map (removal_calls w) ps)\<rparr>
       in CollisionBody_destroy b w = Some (Inr w') \<and>
          removeAllCollisionShapes b w = Some (Inr (b\<lparr>mProxyCollisionShapes := None\<rparr>, w')) \<and>
          distinct ps \<and>
          registered (calls w') = registered (calls w) - set ps))"
proof (intro conjI impI)
  assume "mContactManifoldsList b \<noteq> None"
  then show "CollisionBody_destroy b w = Some (Inl AssertionFailure)"
    by (simp add: CollisionBody_destroy_def)
next
  assume a: "mContactManifoldsList b = None \<and> proxyList w (mProxyCollisionShapes b) ps"
  then have wf: "proxyList w (mProxyCollisionShapes b) ps" by simp
  have d: "distinct ps"
    using wf unfolding proxyList_def by (rule chain_distinct)
  show "let w' = w\<lparr>proxyShapes := (\<lambda>a. if a \<in> set ps then None else proxyShapes w a),
                   calls := calls w @ concat (map (removal_calls w) ps)\<rparr>
       in CollisionBody_destroy b w = Some (Inr w') \<and>
          removeAllCollisionShapes b w = Some (Inr (b\<lparr>mProxyCollisionShapes := None\<rparr>, w')) \<and>
          distinct ps \<and>
          registered (calls w') = registered (calls w) - set ps"
    using a d
    by (simp add: CollisionBody_destroy_def removeAllCollisionShapes_result [OF wf]
        registered_append registered_after_removal_calls)
qed


theorem CollisionBody_destroy_result_witness:
  "CollisionBody_destroy (two_shapes_body\<lparr>mContactManifoldsList := Some 7\<rparr>) two_shapes_world =
     Some (Inl AssertionFailure) \<and>
   proxyList two_shapes_world (mProxyCollisionShapes two_shapes_body) [101, 100] \<and>
   map_option (map_sum id (\<lambda>w. (dom (proxyShapes w), registered (calls w))))
     (CollisionBody_destroy two_shapes_body two_shapes_world) = Some (Inr ({}, {}))"
proof -
  have none: "mContactManifoldsList two_shapes_body = None"
    by (simp add: two_shapes_body_def example_body_def CollisionBody_new_def)
  have some: "mContactManifoldsList (two_shapes_body\<lparr>mContactManifoldsList := Some 7\<rparr>) \<noteq> None"
    by simp
  have reg: "registered (calls two_shapes_world) = {100, 101}"
    by (auto simp: registered_def two_shapes_world_def)
  have heap: "(\<lambda>a. if a \<in> set [101, 100] then None else proxyShapes two_shapes_world a) = Map.empty"
    by (auto simp: fun_eq_iff two_shapes_world_def)
  from CollisionBody_destroy_result
         [of "two_shapes_body\<lparr>mContactManifoldsList := Some 7\<rparr>" two_shapes_world "[]"] some
  have first: "CollisionBody_destroy (two_shapes_body\<lparr>mContactManifoldsList := Some 7\<rparr>)
                 two_shapes_world = Some (Inl AssertionFailure)"
    by blast
  from CollisionBody_destroy_result [of two_shapes_body two_shapes_world "[101, 100]"]
       none two_shapes_list
  have second: "map_option (map_sum id (\<lambda>w. (dom (proxyShapes w), registered (calls w))))
     (CollisionBody_destroy two_shapes_body two_shapes_world) = Some (Inr ({}, {}))"
    unfolding Let_def heap by (auto simp: reg)
  from first second two_shapes_list show ?thesis by simp
qed

text \<open>
  C7: \<open>addCollisionShape\<close> registers the new proxy with the bounding box computed
  from the shape and the composed transform \<open>mTransform * transform\<close>. On a body
  whose proxy shapes form the list \<open>ps\<close>, \<open>updateBroadPhaseState\<close> returns, makes
  exactly one \<open>updateProxyCollisionShape\<close> call for every proxy of the list, in
  list order, with the bounding box computed from the proxy's shape and
  \<open>mTransform * mLocalToBodyTransform\<close>, makes no other call, and leaves the proxy
  shapes in the store (hence the list) as they were.
\<close>

theorem broad_phase_aabb_of_composed_transform:
  "calls (snd (snd (addCollisionShape mul computeAABB collisionShape transform
                      newCollisionShape storage b w))) =
     calls w @
       [CreateCollisionShape collisionShape newCollisionShape,
        Allocate SizeofProxyShape storage,
        AddProxyCollisionShape storage
          (computeAABB newCollisionShape (mul (mTransform b) transform))] \<and>
   (proxyList w (mProxyCollisionShapes b) ps \<longrightarrow>
      updateBroadPhaseState mul computeAABB b w =
        Some (Inr (w\<lparr>calls := calls w @ map (update_call mul computeAABB b w) ps\<rparr>)) \<and>
      map (update_call mul computeAABB b w) ps =
        map (\<lambda>p. UpdateProxyCollisionShape p
                    (computeAABB (mCollisionShape (the (proxyShapes w p)))
                       (mul (mTransform b) (mLocalToBodyTransform (the (proxyShapes w p)))))) ps)"
  by (simp add: addCollisionShape_eq updateBroadPhaseState_def
      updateBroadPhaseState_loop_result update_call_def shapeOf_def localOf_def)

theorem broad_phase_aabb_of_composed_transform_witness:
  "proxyList two_shapes_world (mProxyCollisionShapes two_shapes_body) [101, 100] \<and>
   updateBroadPhaseState (+) Pair two_shapes_body two_shapes_world =
     Some (Inr (two_shapes_world\<lparr>calls := calls two_shapes_world @
        [UpdateProxyCollisionShape 101 (2, 8), UpdateProxyCollisionShape 100 (1, 5)]\<rparr>))"
proof -
  have t: "mTransform two_shapes_body = 5"
    by (simp add: two_shapes_body_def example_body_def CollisionBody_new_def)
  have u: "map (update_call (+) Pair two_shapes_body two_shapes_world) [101, 100] =
     [UpdateProxyCollisionShape 101 (2, 8), UpdateProxyCollisionShape 100 (1, 5)]"
    by (simp add: update_call_def shapeOf_def localOf_def t) (simp add: two_shapes_world_def)
  from broad_phase_aabb_of_composed_transform
    [of "(+)" Pair "''cone''" 4 3 102 two_shapes_body two_shapes_world "[101, 100]"]
    two_shapes_list
  show ?thesis
    unfolding u by blast
qed

text \<open>
  C8: \<open>resetContactManifoldsList\<close>, on a body whose contact manifold list is a
  well-formed list \<open>ms\<close> of live elements, returns; it destructs and releases every
  element of the list once, in list order (the elements are pairwise distinct), and
  sets the head of the contact manifold list to \<open>NULL\<close>. Nothing else changes: the
  proxy shape list, the shape count and the proxy shapes of the world are as before.
\<close>

theorem resetContactManifoldsList_frame:
  assumes "manifoldList w (mContactManifoldsList b) ms"
  shows "(let b' = b\<lparr>mContactManifoldsList := None\<rparr>;
              w' = w\<lparr>manifoldElements := (\<lambda>a. if a \<in> set ms then None else manifoldElements w a),
                     calls := calls w @ concat (map manifold_release_calls ms)\<rparr>
          in resetContactManifoldsList b w = Some (Inr (b', w')) \<and>
             distinct ms \<and>
             mContactManifoldsList b' = None \<and>
             mProxyCollisionShapes b' = mProxyCollisionShapes b \<and>
             mNbCollisionShapes b' = mNbCollisionShapes b \<and>
             proxyShapes w' = proxyShapes w)"
proof -
  have "distinct ms"
    using assms unfolding manifoldList_def by (rule chain_distinct)
  then show ?thesis
    by (simp add: resetContactManifoldsList_def
        resetContactManifoldsList_loop_result [OF assms])
qed

theorem resetContactManifoldsList_frame_witness:
  "manifoldList
     (example_world\<lparr>manifoldElements :=
        [7 \<mapsto> \<lparr>contactManifold = 0, cm_next = Some 8\<rparr>,
         8 \<mapsto> \<lparr>contactManifold = 1, cm_next = None\<rparr>]\<rparr>)
     (mContactManifoldsList (example_body\<lparr>mContactManifoldsList := Some 7\<rparr>)) [7, 8] \<and>
   resetContactManifoldsList (example_body\<lparr>mContactManifoldsList := Some 7\<rparr>)
     (example_world\<lparr>manifoldElements :=
        [7 \<mapsto> \<lparr>contactManifold = 0, cm_next = Some 8\<rparr>,
         8 \<mapsto> \<lparr>contactManifold = 1, cm_next = None\<rparr>]\<rparr>) =
   Some (Inr (example_body,
              example_world\<lparr>calls :=
                [DestructContactManifoldListElement 7, Release 7 SizeofContactManifoldListElement,
                 DestructContactManifoldListElement 8, Release 8 SizeofContactManifoldListElement]\<rparr>))"
proof -
  let ?w = "example_world\<lparr>manifoldElements :=
        [7 \<mapsto> \<lparr>contactManifold = 0, cm_next = Some 8\<rparr>,
         8 \<mapsto> \<lparr>contactManifold = 1, cm_next = None\<rparr>]\<rparr>"
  let ?b = "example_body\<lparr>mContactManifoldsList := Some 7\<rparr>"
  have h: "manifoldList ?w (mContactManifoldsList ?b) [7, 8]"
    by (simp add: manifoldList_def manifoldNext_def example_world_def)
  have heap: "(\<lambda>a. if a \<in> set [7, 8::nat] then None else manifoldElements ?w a) = Map.empty"
    by (auto simp: fun_eq_iff example_world_def)
  show ?thesis
    using h resetContactManifoldsList_frame [OF h]
    unfolding Let_def heap
    by (simp add: example_world_def example_body_def CollisionBody_new_def
        manifold_release_calls_def)
qed

text \<open>
  C9: on a body whose proxy shapes form the list \<open>ps\<close>, \<open>testPointInside\<close>
  returns true if and only if some proxy of the list reports the point inside; the
  proxies it asks are those before the first one that reports inside, and that one,
  so no proxy after the first match is asked. On an empty list it returns false and
  asks nobody.
\<close>

theorem testPointInside_iff_some_proxy:
  "(proxyList w (mProxyCollisionShapes b) ps \<longrightarrow>
      testPointInside inside b w worldPoint =
        Some (Inr ((\<exists>p \<in> set ps. insideAt inside b w worldPoint p),
                   takeWhile (\<lambda>p. \<not> insideAt inside b w worldPoint p) ps @
                   take 1 (dropWhile (\<lambda>p. \<not> insideAt inside b w worldPoint p) ps)))) \<and>
   (mProxyCollisionShapes b = None \<longrightarrow>
      testPointInside inside b w worldPoint = Some (Inr (False, [])))"
proof (intro conjI impI)
  assume "proxyList w (mProxyCollisionShapes b) ps"
  then show "testPointInside inside b w worldPoint =
        Some (Inr ((\<exists>p \<in> set ps. insideAt inside b w worldPoint p),
                   takeWhile (\<lambda>p. \<not> insideAt inside b w worldPoint p) ps @
                   take 1 (dropWhile (\<lambda>p. \<not> insideAt inside b w worldPoint p) ps)))"
    by (simp add: testPointInside_def testPointInside_loop_result list_ex_iff)
next
  assume "mProxyCollisionShapes b = None"
  then show "testPointInside inside b w worldPoint = Some (Inr (False, []))"
    by (simp add: testPointInside_def testPointInside_loop.simps)
qed

theorem testPointInside_iff_some_proxy_witness:
  "proxyList two_shapes_world (mProxyCollisionShapes two_shapes_body) [101, 100] \<and>
   testPointInside example_inside two_shapes_body two_shapes_world 8 = Some (Inr (True, [101])) \<and>
   testPointInside example_inside two_shapes_body two_shapes_world 5 =
     Some (Inr (True, [101, 100])) \<and>
   testPointInside example_inside two_shapes_body two_shapes_world 6 =
     Some (Inr (False, [101, 100])) \<and>
   mProxyCollisionShapes example_body = None \<and>
   testPointInside example_inside example_body example_world 5 = Some (Inr (False, []))"
proof -
  have none: "mProxyCollisionShapes example_body = None"
    by (simp add: example_body_def CollisionBody_new_def)
  have ins: "insideAt example_inside two_shapes_body two_shapes_world x p =
     (if p = 101 then x = 8 else if p = 100 then x = 5
      else example_inside 5 (the None) x)" for x p
    by (simp add: insideAt_def example_inside_def two_shapes_body_def two_shapes_world_def
        example_body_def CollisionBody_new_def)
  from testPointInside_iff_some_proxy
         [of two_shapes_world two_shapes_body "[101, 100]" example_inside 8]
       testPointInside_iff_some_proxy
         [of two_shapes_world two_shapes_body "[101, 100]" example_inside 5]
       testPointInside_iff_some_proxy
         [of two_shapes_world two_shapes_body "[101, 100]" example_inside 6]
       testPointInside_iff_some_proxy
         [of example_world example_body "[]" example_inside 5]
       two_shapes_list none
  show ?thesis
    by (simp add: ins)
qed

text \<open>
  C10: both \<open>raycast\<close> overloads return false for every ray and distance (and
  every body), and the overload with feedback leaves the feedback structure as it
  was passed in.
\<close>

theorem raycast_always_false:
  "raycast ray distance b = False \<and>
   raycast_info ray raycastInfo distance b = (False, raycastInfo)"
  by (simp add: raycast_def raycast_info_def)

end
